theory Spec2Isabelle
  imports Main
begin

section \<open>The Builder example: objects, store and errors\<close>

text \<open>
  The program of \<^verbatim>\<open>src/Builder/index.js\<close> has four classes: \<^verbatim>\<open>Product1\<close>,
  \<^verbatim>\<open>Builder\<close>, \<^verbatim>\<open>ConcreteBuilder1 extends Builder\<close> and \<^verbatim>\<open>Director\<close>.
  Objects are shared by reference (the director holds a builder, the builder holds its
  product, the client keeps the product it retrieved), so the model has an explicit store:
  a list of objects, an address being an index into it. \<^verbatim>\<open>new\<close> appends to the
  store, so a new object never takes the address of an older one.
\<close>

type_synonym addr = nat

datatype val = Undefined | Ref addr

text \<open>
  One constructor per class, with the fields the class assigns. A field that has not
  been assigned yet reads \<^verbatim>\<open>undefined\<close> in JavaScript: \<open>Director\<close> has no
  constructor, so its \<^verbatim>\<open>builder\<close> is \<open>Undefined\<close> until \<^verbatim>\<open>setBuilder\<close> runs.
\<close>

datatype obj =
    Product1 "string list"
  | Builder
  | ConcreteBuilder1 val
  | Director val

datatype type_error = UndefinedRead | NotAFunction

text \<open>
  \<open>Error msg\<close> is \<^verbatim>\<open>throw new Error(msg)\<close>. The engine's own \<^verbatim>\<open>TypeError\<close> comes in
  the two kinds the program can meet: reading a property of \<^verbatim>\<open>undefined\<close>, and calling
  a property that is not a function.
\<close>

datatype error = Error string | TypeError type_error

record state =
  heap :: "obj list"
  console :: "string list"

text \<open>
  A call returns its outcome together with the store it leaves: a \<^verbatim>\<open>throw\<close> keeps the
  mutations made before it.
\<close>

type_synonym 'a result = "(error + 'a) \<times> state"

definition init_state :: state where
  "init_state = \<lparr>heap = [], console = []\<rparr>"

definition lookup :: "state \<Rightarrow> addr \<Rightarrow> obj option" where
  "lookup s a = (if a < length (heap s) then Some (heap s ! a) else None)"

definition alloc :: "obj \<Rightarrow> state \<Rightarrow> addr \<times> state" where
  "alloc ob s = (length (heap s), s\<lparr>heap := heap s @ [ob]\<rparr>)"

definition store :: "addr \<Rightarrow> obj \<Rightarrow> state \<Rightarrow> state" where
  "store a ob s = s\<lparr>heap := (heap s)[a := ob]\<rparr>"

definition and_then :: "(state \<Rightarrow> 'a result) \<Rightarrow> (state \<Rightarrow> 'b result) \<Rightarrow> state \<Rightarrow> 'b result" where
  "and_then f g s = (case f s of (Inl e, s') \<Rightarrow> (Inl e, s') | (Inr _, s') \<Rightarrow> g s')"

section \<open>Product1\<close>

text \<open>
  \<^verbatim>\<open>Array.prototype.join\<close> is the engine's: the result starts empty, and for each index
  \<open>k\<close> the separator is added when \<open>k > 0\<close>, then the element.
\<close>

fun join_loop :: "string \<Rightarrow> string list \<Rightarrow> nat \<Rightarrow> string \<Rightarrow> string" where
  "join_loop sep [] k r = r"
| "join_loop sep (x # xs) k r = join_loop sep xs (Suc k) ((if 0 < k then r @ sep else r) @ x)"

definition join :: "string list \<Rightarrow> string \<Rightarrow> string" where
  "join xs sep = join_loop sep xs 0 []"

text \<open>\<^verbatim>\<open>new Product1()\<close>: \<^verbatim>\<open>this.parts = []\<close>.\<close>

definition new_Product1 :: "state \<Rightarrow> addr \<times> state" where
  "new_Product1 s = alloc (Product1 []) s"

text \<open>
  \<^verbatim>\<open>listParts()\<close> logs one line and returns nothing. On a receiver without
  \<^verbatim>\<open>parts\<close> the read of \<^verbatim>\<open>this.parts.join\<close> throws.
\<close>

definition listParts :: "addr \<Rightarrow> state \<Rightarrow> val result" where
  "listParts this s =
     (case lookup s this of
        Some (Product1 ps) \<Rightarrow>
          (Inr Undefined, s\<lparr>console := console s @ [''Product parts: '' @ join ps '', '' @ [CHR 0x0A]]\<rparr>)
      | _ \<Rightarrow> (Inl (TypeError UndefinedRead), s))"

section \<open>Builder\<close>

text \<open>\<^verbatim>\<open>new Builder()\<close>: the class has no constructor and no field.\<close>

definition new_Builder :: "state \<Rightarrow> addr \<times> state" where
  "new_Builder s = alloc Builder s"

definition buildPartA :: "addr \<Rightarrow> state \<Rightarrow> val result" where
  "buildPartA this s = (Inl (Error ''buildPartA() method must be implemented''), s)"

definition buildPartB :: "addr \<Rightarrow> state \<Rightarrow> val result" where
  "buildPartB this s = (Inl (Error ''buildPartB() method must be implemented''), s)"

definition buildPartC :: "addr \<Rightarrow> state \<Rightarrow> val result" where
  "buildPartC this s = (Inl (Error ''buildPartC() method must be implemented''), s)"

section \<open>ConcreteBuilder1\<close>

text \<open>
  \<^verbatim>\<open>reset()\<close>: \<^verbatim>\<open>this.product = new Product1()\<close>. The methods of this class are only
  ever reached on a \<open>ConcreteBuilder1\<close> receiver (see \<open>call\<close> below); on another
  receiver the model answers as the failed method lookup does.
\<close>

definition reset :: "addr \<Rightarrow> state \<Rightarrow> val result" where
  "reset this s =
     (case lookup s this of
        Some (ConcreteBuilder1 _) \<Rightarrow>
          (let (p, s1) = new_Product1 s in (Inr Undefined, store this (ConcreteBuilder1 (Ref p)) s1))
      | _ \<Rightarrow> (Inl (TypeError NotAFunction), s))"

text \<open>
  \<^verbatim>\<open>this.product.parts.push(name)\<close>: it throws when \<^verbatim>\<open>this.product\<close> is
  \<^verbatim>\<open>undefined\<close>, and when it is an object without \<^verbatim>\<open>parts\<close>.
\<close>

definition push_part :: "string \<Rightarrow> addr \<Rightarrow> state \<Rightarrow> val result" where
  "push_part name this s =
     (case lookup s this of
        Some (ConcreteBuilder1 pv) \<Rightarrow>
          (case pv of
             Undefined \<Rightarrow> (Inl (TypeError UndefinedRead), s)
           | Ref p \<Rightarrow>
               (case lookup s p of
                  Some (Product1 ps) \<Rightarrow> (Inr Undefined, store p (Product1 (ps @ [name])) s)
                | _ \<Rightarrow> (Inl (TypeError UndefinedRead), s)))
      | _ \<Rightarrow> (Inl (TypeError NotAFunction), s))"

definition producePartA :: "addr \<Rightarrow> state \<Rightarrow> val result" where
  "producePartA this s = push_part ''PartA1'' this s"

definition producePartB :: "addr \<Rightarrow> state \<Rightarrow> val result" where
  "producePartB this s = push_part ''PartB1'' this s"

definition producePartC :: "addr \<Rightarrow> state \<Rightarrow> val result" where
  "producePartC this s = push_part ''PartC1'' this s"

text \<open>
  \<^verbatim>\<open>getProduct()\<close>: \<^verbatim>\<open>const result = this.product; this.reset(); return result\<close>.
\<close>

definition getProduct :: "addr \<Rightarrow> state \<Rightarrow> val result" where
  "getProduct this s =
     (case lookup s this of
        Some (ConcreteBuilder1 pv) \<Rightarrow>
          (case reset this s of
             (Inl e, s1) \<Rightarrow> (Inl e, s1)
           | (Inr _, s1) \<Rightarrow> (Inr pv, s1))
      | _ \<Rightarrow> (Inl (TypeError NotAFunction), s))"

text \<open>
  \<^verbatim>\<open>new ConcreteBuilder1()\<close>: the object is created without \<^verbatim>\<open>product\<close>,
  \<^verbatim>\<open>super()\<close> does nothing, then \<^verbatim>\<open>this.reset()\<close> runs.
\<close>

definition new_ConcreteBuilder1 :: "state \<Rightarrow> addr \<times> state" where
  "new_ConcreteBuilder1 s =
     (let (b, s1) = alloc (ConcreteBuilder1 Undefined) s in (b, snd (reset b s1)))"

section \<open>Method calls\<close>

datatype cls = CProduct1 | CBuilder | CConcreteBuilder1 | CDirector

datatype mname =
    ListParts
  | BuildPartA | BuildPartB | BuildPartC
  | Reset | ProducePartA | ProducePartB | ProducePartC | GetProduct

fun class_of :: "obj \<Rightarrow> cls" where
  "class_of (Product1 _) = CProduct1"
| "class_of Builder = CBuilder"
| "class_of (ConcreteBuilder1 _) = CConcreteBuilder1"
| "class_of (Director _) = CDirector"

fun superclass :: "cls \<Rightarrow> cls option" where
  "superclass CConcreteBuilder1 = Some CBuilder"
| "superclass _ = None"

text \<open>
  The methods a class body declares itself, among the names of \<open>mname\<close>. The
  \<open>Director\<close> declares none of them: \<^verbatim>\<open>setBuilder\<close> and the two recipes are modelled
  below, as functions on the director.
\<close>

fun own_method :: "cls \<Rightarrow> mname \<Rightarrow> (addr \<Rightarrow> state \<Rightarrow> val result) option" where
  "own_method CProduct1 ListParts = Some listParts"
| "own_method CBuilder BuildPartA = Some buildPartA"
| "own_method CBuilder BuildPartB = Some buildPartB"
| "own_method CBuilder BuildPartC = Some buildPartC"
| "own_method CConcreteBuilder1 Reset = Some reset"
| "own_method CConcreteBuilder1 ProducePartA = Some producePartA"
| "own_method CConcreteBuilder1 ProducePartB = Some producePartB"
| "own_method CConcreteBuilder1 ProducePartC = Some producePartC"
| "own_method CConcreteBuilder1 GetProduct = Some getProduct"
| "own_method _ _ = None"

text \<open>Lookup along the prototype chain, which is one \<^verbatim>\<open>extends\<close> deep.\<close>

definition find_method :: "cls \<Rightarrow> mname \<Rightarrow> (addr \<Rightarrow> state \<Rightarrow> val result) option" where
  "find_method c m =
     (case own_method c m of
        Some f \<Rightarrow> Some f
      | None \<Rightarrow> (case superclass c of None \<Rightarrow> None | Some c' \<Rightarrow> own_method c' m))"

text \<open>
  The call \<^verbatim>\<open>v.m()\<close>: reading \<^verbatim>\<open>m\<close> of \<^verbatim>\<open>undefined\<close> throws; a receiver whose class
  chain has no \<^verbatim>\<open>m\<close> gives \<^verbatim>\<open>undefined\<close> for it, and calling that throws. (A reference
  outside the store does not arise in JavaScript; the model treats it as \<^verbatim>\<open>undefined\<close>.)
\<close>

definition call :: "val \<Rightarrow> mname \<Rightarrow> state \<Rightarrow> val result" where
  "call v m s =
     (case v of
        Undefined \<Rightarrow> (Inl (TypeError UndefinedRead), s)
      | Ref a \<Rightarrow>
          (case lookup s a of
             None \<Rightarrow> (Inl (TypeError UndefinedRead), s)
           | Some ob \<Rightarrow>
               (case find_method (class_of ob) m of
                  None \<Rightarrow> (Inl (TypeError NotAFunction), s)
                | Some f \<Rightarrow> f a s)))"

section \<open>Director\<close>

definition new_Director :: "state \<Rightarrow> addr \<times> state" where
  "new_Director s = alloc (Director Undefined) s"

text \<open>\<^verbatim>\<open>setBuilder(builder)\<close>: \<^verbatim>\<open>this.builder = builder\<close>, whatever the value.\<close>

definition setBuilder :: "addr \<Rightarrow> val \<Rightarrow> state \<Rightarrow> val result" where
  "setBuilder this v s =
     (case lookup s this of
        Some (Director _) \<Rightarrow> (Inr Undefined, store this (Director v) s)
      | _ \<Rightarrow> (Inl (TypeError NotAFunction), s))"

text \<open>
  One statement \<^verbatim>\<open>this.builder.m();\<close> of a recipe: the field is read again at every
  statement.
\<close>

definition builder_call :: "addr \<Rightarrow> mname \<Rightarrow> state \<Rightarrow> val result" where
  "builder_call this m s =
     (case lookup s this of
        Some (Director bv) \<Rightarrow> call bv m s
      | _ \<Rightarrow> (Inl (TypeError NotAFunction), s))"

definition buildMinimalViableProduct :: "addr \<Rightarrow> state \<Rightarrow> val result" where
  "buildMinimalViableProduct this s = builder_call this ProducePartA s"

definition buildFullFeaturedProduct :: "addr \<Rightarrow> state \<Rightarrow> val result" where
  "buildFullFeaturedProduct this s =
     and_then (builder_call this ProducePartA)
       (and_then (builder_call this ProducePartB)
          (builder_call this ProducePartC)) s"

section \<open>The client\<close>

definition console_log :: "string \<Rightarrow> state \<Rightarrow> val result" where
  "console_log line s = (Inr Undefined, s\<lparr>console := console s @ [line]\<rparr>)"

definition bind_result :: "(state \<Rightarrow> 'a result) \<Rightarrow> ('a \<Rightarrow> state \<Rightarrow> 'b result) \<Rightarrow> state \<Rightarrow> 'b result" where
  "bind_result f g s = (case f s of (Inl e, s') \<Rightarrow> (Inl e, s') | (Inr x, s') \<Rightarrow> g x s')"

text \<open>\<^verbatim>\<open>builder.getProduct().listParts()\<close>.\<close>

definition show_product :: "addr \<Rightarrow> state \<Rightarrow> val result" where
  "show_product builder = bind_result (call (Ref builder) GetProduct) (\<lambda>v. call v ListParts)"

text \<open>\<^verbatim>\<open>clientCode(director)\<close>, statement by statement.\<close>

definition clientCode :: "addr \<Rightarrow> state \<Rightarrow> val result" where
  "clientCode director s =
     (case new_ConcreteBuilder1 s of
        (builder, s0) \<Rightarrow>
          and_then (setBuilder director (Ref builder))
         (and_then (console_log ''Standard basic product:'')
         (and_then (buildMinimalViableProduct director)
         (and_then (show_product builder)
         (and_then (console_log ''Standard full featured product:'')
         (and_then (buildFullFeaturedProduct director)
         (and_then (show_product builder)
         (and_then (console_log ''Custom product:'')
         (and_then (call (Ref builder) ProducePartA)
         (and_then (call (Ref builder) ProducePartC)
         (and_then (show_product builder)
           (console_log
              ''Remember that all outputs are different, due to the reset() method is called after each getProduct() call.''))))))))))) s0)"

text \<open>The script: \<^verbatim>\<open>const director = new Director(); clientCode(director);\<close>.\<close>

definition main :: "val result" where
  "main = (case new_Director init_state of (director, s) \<Rightarrow> clientCode director s)"

text \<open>
  The store once the client has wired a new builder to the director: the director at
  address 0, the builder at 1, its empty product at 2.
\<close>

definition wired :: state where
  "wired = \<lparr>heap = [Director (Ref 1), ConcreteBuilder1 (Ref 2), Product1 []], console = []\<rparr>"

section \<open>Clients: sequences of calls\<close>

text \<open>
  The three production steps, with the method each one calls and the identifier that
  \<open>ConcreteBuilder1\<close> pushes for it.
\<close>

datatype part = PartA | PartB | PartC

fun produce :: "part \<Rightarrow> mname" where
  "produce PartA = ProducePartA"
| "produce PartB = ProducePartB"
| "produce PartC = ProducePartC"

fun part_name :: "part \<Rightarrow> string" where
  "part_name PartA = ''PartA1''"
| "part_name PartB = ''PartB1''"
| "part_name PartC = ''PartC1''"

text \<open>A client making the calls \<^verbatim>\<open>v.m1(); v.m2(); ...\<close>: the first throw ends the run.\<close>

fun calls :: "val \<Rightarrow> mname list \<Rightarrow> state \<Rightarrow> val result" where
  "calls v [] s = (Inr Undefined, s)"
| "calls v (m # ms) s =
     (case call v m s of (Inl e, s') \<Rightarrow> (Inl e, s') | (Inr _, s') \<Rightarrow> calls v ms s')"

text \<open>
  A client that catches what is thrown and goes on: every call is made, and the outcomes
  are collected in order.
\<close>

fun outcomes :: "val \<Rightarrow> mname list \<Rightarrow> state \<Rightarrow> (error + val) list \<times> state" where
  "outcomes v [] s = ([], s)"
| "outcomes v (m # ms) s =
     (case call v m s of (r, s') \<Rightarrow> (case outcomes v ms s' of (rs, s'') \<Rightarrow> (r # rs, s'')))"

text \<open>The director's two recipes, and a client running a sequence of them.\<close>

datatype recipe = Minimal | Full

fun run_recipe :: "addr \<Rightarrow> recipe \<Rightarrow> state \<Rightarrow> val result" where
  "run_recipe d Minimal s = buildMinimalViableProduct d s"
| "run_recipe d Full s = buildFullFeaturedProduct d s"

fun recipe_parts :: "recipe \<Rightarrow> string list" where
  "recipe_parts Minimal = [''PartA1'']"
| "recipe_parts Full = [''PartA1'', ''PartB1'', ''PartC1'']"

fun recipes :: "addr \<Rightarrow> recipe list \<Rightarrow> state \<Rightarrow> val result" where
  "recipes d [] s = (Inr Undefined, s)"
| "recipes d (r # rs) s =
     (case run_recipe d r s of (Inl e, s') \<Rightarrow> (Inl e, s') | (Inr _, s') \<Rightarrow> recipes d rs s')"

text \<open>
  The product a builder is working on: its address and its parts, when the builder's
  \<^verbatim>\<open>product\<close> field refers to a \<open>Product1\<close>.
\<close>

definition current :: "state \<Rightarrow> addr \<Rightarrow> (addr \<times> string list) option" where
  "current s b =
     (case lookup s b of
        Some (ConcreteBuilder1 (Ref p)) \<Rightarrow>
          (case lookup s p of Some (Product1 ps) \<Rightarrow> Some (p, ps) | _ \<Rightarrow> None)
      | _ \<Rightarrow> None)"

text \<open>
  No product is shared: two builders that hold the same product are the same builder.
  The constructors and methods of the program keep this (\<open>reset\<close> is the only
  assignment to \<^verbatim>\<open>product\<close>, and it assigns a new object).
\<close>

definition unshared :: "state \<Rightarrow> bool" where
  "unshared s =
     (\<forall>b1 b2 q. lookup s b1 = Some (ConcreteBuilder1 (Ref q)) \<longrightarrow>
                lookup s b2 = Some (ConcreteBuilder1 (Ref q)) \<longrightarrow> b1 = b2)"

definition products_allocated :: "state \<Rightarrow> bool" where
  "products_allocated s =
     (\<forall>b q. lookup s b = Some (ConcreteBuilder1 (Ref q)) \<longrightarrow> q < length (heap s))"

definition heap_ok :: "state \<Rightarrow> bool" where
  "heap_ok s = (unshared s \<and> products_allocated s)"

text \<open>
  The description of the parts in the words of the specification: the parts in insertion
  order, the separator between neighbours.
\<close>

fun joined :: "string \<Rightarrow> string list \<Rightarrow> string" where
  "joined sep [] = []"
| "joined sep [x] = x"
| "joined sep (x # y # ys) = x @ sep @ joined sep (y # ys)"

text \<open>
  A product \<open>p\<close> that builder \<open>b\<close> has handed out: it is in the store with parts
  \<open>ps\<close>, and \<open>b\<close> is working on another product.
\<close>

definition handed_out :: "addr \<Rightarrow> addr \<Rightarrow> string list \<Rightarrow> state \<Rightarrow> bool" where
  "handed_out b p ps s =
     ((\<exists>q qs. current s b = Some (q, qs) \<and> q \<noteq> p) \<and> lookup s p = Some (Product1 ps))"

text \<open>
  Two more stores of the client's making. In \<open>busy\<close> the director (address 0) holds the
  first builder (1), whose product (2) has one part; a second builder (3) is working on
  its own product (4). In \<open>unwired\<close> a director has been created and nothing else.
\<close>

definition busy :: state where
  "busy = \<lparr>heap = [Director (Ref 1), ConcreteBuilder1 (Ref 2), Product1 [''PartA1''],
                  ConcreteBuilder1 (Ref 4), Product1 [''PartC1'']], console = []\<rparr>"

definition unwired :: state where
  "unwired = \<lparr>heap = [Director Undefined], console = []\<rparr>"

section \<open>The store and the production steps\<close>

lemma lookup_less: "lookup s a = Some ob \<Longrightarrow> a < length (heap s)"
  by (simp add: lookup_def split: if_splits)

lemma lookup_alloc: "lookup (snd (alloc ob s)) a = (if a = length (heap s) then Some ob else lookup s a)"
  by (simp add: lookup_def alloc_def nth_append)

lemma lookup_store: "lookup (store a ob s) a' = (if a' = a \<and> a < length (heap s) then Some ob else lookup s a')"
  by (simp add: lookup_def store_def nth_list_update)

lemma store_store: "store a x (store a y s) = store a x s"
  by (simp add: store_def)

lemma store_same: "lookup s a = Some ob \<Longrightarrow> store a ob s = s"
  by (auto simp: lookup_def store_def split: if_splits)

lemma lookup_extend:
  "lookup (s\<lparr>heap := heap s @ [ob]\<rparr>) a = (if a = length (heap s) then Some ob else lookup s a)"
  by (simp add: lookup_def nth_append)

lemma lookup_console: "lookup (s\<lparr>console := c\<rparr>) a = lookup s a"
  by (simp add: lookup_def)

lemma length_store: "length (heap (store a ob s)) = length (heap s)"
  by (simp add: store_def)

lemma current_store_same: "current s b = Some (p, ps) \<Longrightarrow> store p (Product1 ps) s = s"
  by (rule store_same) (auto simp: current_def split: option.splits obj.splits val.splits)

lemma push_part_current:
  "current s b = Some (p, ps) \<Longrightarrow> push_part n b s = (Inr Undefined, store p (Product1 (ps @ [n])) s)"
  by (auto simp: current_def push_part_def split: option.splits obj.splits val.splits)

lemma current_push:
  "current s b = Some (p, ps) \<Longrightarrow> current (store p (Product1 qs) s) b = Some (p, qs)"
  by (auto simp: current_def lookup_store lookup_less split: option.splits obj.splits val.splits)

lemma call_produce:
  "current s b = Some (p, ps) \<Longrightarrow>
   call (Ref b) (produce c) s = (Inr Undefined, store p (Product1 (ps @ [part_name c])) s)"
  by (cases c) (auto simp: call_def find_method_def producePartA_def producePartB_def producePartC_def
      push_part_current current_def split: option.splits obj.splits val.splits)

lemma calls_produce:
  "current s b = Some (p, ps) \<Longrightarrow>
   calls (Ref b) (map produce cs) s =
     (Inr Undefined, store p (Product1 (ps @ map part_name cs)) s)"
proof (induction cs arbitrary: s ps)
  case Nil
  then show ?case by (simp add: current_store_same)
next
  case (Cons c cs)
  have cur: "current (store p (Product1 (ps @ [part_name c])) s) b = Some (p, ps @ [part_name c])"
    using Cons.prems by (rule current_push)
  show ?case
    using Cons.IH [OF cur] by (simp add: call_produce [OF Cons.prems] store_store)
qed

lemma getProduct_effect:
  "lookup s b = Some (ConcreteBuilder1 pv) \<Longrightarrow>
   call (Ref b) GetProduct s =
     (Inr pv, store b (ConcreteBuilder1 (Ref (length (heap s)))) (snd (alloc (Product1 []) s)))"
  by (simp add: call_def find_method_def getProduct_def reset_def new_Product1_def alloc_def)

lemma new_ConcreteBuilder1_effect:
  "new_ConcreteBuilder1 s =
     (length (heap s),
      s\<lparr>heap := heap s @ [ConcreteBuilder1 (Ref (Suc (length (heap s)))), Product1 []]\<rparr>)"
  by (simp add: new_ConcreteBuilder1_def alloc_def reset_def lookup_def new_Product1_def store_def
      nth_append list_update_append)

lemma current_new:
  "current (snd (new_ConcreteBuilder1 s)) (fst (new_ConcreteBuilder1 s)) = Some (Suc (length (heap s)), [])"
  by (simp add: new_ConcreteBuilder1_effect current_def lookup_def nth_append)

lemma currentD:
  "current s b = Some (p, ps) \<Longrightarrow>
   lookup s b = Some (ConcreteBuilder1 (Ref p)) \<and> lookup s p = Some (Product1 ps)"
  by (auto simp: current_def split: option.splits obj.splits val.splits)

lemma currentI:
  "lookup s b = Some (ConcreteBuilder1 (Ref p)) \<Longrightarrow> lookup s p = Some (Product1 ps) \<Longrightarrow>
   current s b = Some (p, ps)"
  by (simp add: current_def)

text \<open>
  Claim C1. On a builder just constructed, any sequence of \<^verbatim>\<open>producePartA\<close>,
  \<^verbatim>\<open>producePartB\<close> and \<^verbatim>\<open>producePartC\<close> calls runs without a throw, and the
  \<^verbatim>\<open>getProduct()\<close> that follows returns a product whose parts are the identifiers of
  the calls, one per call, in the order of the calls.
\<close>

theorem fresh_builder_parts_in_call_order:
  "case new_ConcreteBuilder1 s of (b, s0) \<Rightarrow>
     (case calls (Ref b) (map produce cs) s0 of (r1, s1) \<Rightarrow>
        r1 = Inr Undefined \<and>
        (case call (Ref b) GetProduct s1 of (r2, s2) \<Rightarrow>
           \<exists>p. r2 = Inr (Ref p) \<and> lookup s2 p = Some (Product1 (map part_name cs))))"
proof -
  obtain b s0 where new: "new_ConcreteBuilder1 s = (b, s0)"
    by (cases "new_ConcreteBuilder1 s")
  let ?p = "Suc (length (heap s))"
  have cur: "current s0 b = Some (?p, [])"
    using current_new [of s] new by simp
  let ?s1 = "store ?p (Product1 (map part_name cs)) s0"
  have run: "calls (Ref b) (map produce cs) s0 = (Inr Undefined, ?s1)"
    using calls_produce [OF cur, of cs] by simp
  have cur1: "current ?s1 b = Some (?p, map part_name cs)"
    using cur by (rule current_push)
  note d = currentD [OF cur1]
  have get: "call (Ref b) GetProduct ?s1 =
      (Inr (Ref ?p), store b (ConcreteBuilder1 (Ref (length (heap ?s1)))) (snd (alloc (Product1 []) ?s1)))"
    using d by (simp add: getProduct_effect)
  have "b \<noteq> ?p" using d by auto
  then have "lookup (store b (ConcreteBuilder1 (Ref (length (heap ?s1)))) (snd (alloc (Product1 []) ?s1))) ?p
      = Some (Product1 (map part_name cs))"
    using d lookup_less [of ?s1 ?p] by (auto simp: lookup_store lookup_alloc)
  then show ?thesis
    by (simp add: new run get)
qed

section \<open>The director's recipes\<close>

text \<open>No call of a method of the products and builders writes to a director.\<close>

lemma call_keeps_Director:
  assumes "lookup s d = Some (Director bv)"
  shows "lookup (snd (call v m s)) d = Some (Director bv)"
proof (cases v)
  case Undefined
  then show ?thesis using assms by (simp add: call_def)
next
  case (Ref a)
  show ?thesis
  proof (cases "lookup s a")
    case None
    then show ?thesis using assms Ref by (simp add: call_def)
  next
    case (Some ob)
    have less: "d < length (heap s)" using assms by (rule lookup_less)
    show ?thesis using assms Ref Some less
      by (cases ob; cases m)
        (auto simp: call_def find_method_def listParts_def buildPartA_def buildPartB_def
          buildPartC_def reset_def producePartA_def producePartB_def producePartC_def
          push_part_def getProduct_def new_Product1_def lookup_store lookup_extend lookup_console
          alloc_def
          split: option.splits obj.splits val.splits)
  qed
qed

lemma builder_call_held:
  "lookup s d = Some (Director bv) \<Longrightarrow> builder_call d m s = call bv m s"
  by (simp add: builder_call_def)

lemma and_then_cong_held:
  assumes "lookup s d = Some (Director bv)"
    and "\<And>s'. lookup s' d = Some (Director bv) \<Longrightarrow> g s' = g' s'"
  shows "and_then (builder_call d m) g s = and_then (call bv m) g' s"
proof -
  have keep: "lookup (snd (call bv m s)) d = Some (Director bv)"
    using assms(1) by (rule call_keeps_Director)
  show ?thesis
    using keep assms(2) [of "snd (call bv m s)"]
    by (cases "call bv m s") (auto simp: and_then_def builder_call_held [OF assms(1)] split: sum.splits)
qed

lemma full_is_three_calls:
  assumes "lookup s d = Some (Director bv)"
  shows "buildFullFeaturedProduct d s =
    and_then (call bv ProducePartA) (and_then (call bv ProducePartB) (call bv ProducePartC)) s"
  unfolding buildFullFeaturedProduct_def
  by (rule and_then_cong_held [OF assms], rule and_then_cong_held, assumption, rule builder_call_held)

lemma three_calls_effect:
  assumes "current s b = Some (p, ps)"
  shows "and_then (call (Ref b) ProducePartA) (and_then (call (Ref b) ProducePartB) (call (Ref b) ProducePartC)) s
    = (Inr Undefined, store p (Product1 (ps @ [''PartA1'', ''PartB1'', ''PartC1''])) s)"
proof -
  let ?s1 = "store p (Product1 (ps @ [''PartA1''])) s"
  let ?s2 = "store p (Product1 (ps @ [''PartA1'', ''PartB1''])) s"
  have a: "call (Ref b) ProducePartA s = (Inr Undefined, ?s1)"
    using call_produce [OF assms, of PartA] by simp
  have cur1: "current ?s1 b = Some (p, ps @ [''PartA1''])"
    using assms by (rule current_push)
  have b: "call (Ref b) ProducePartB ?s1 = (Inr Undefined, ?s2)"
    using call_produce [OF cur1, of PartB] by (simp add: store_store)
  have cur2: "current ?s2 b = Some (p, ps @ [''PartA1'', ''PartB1''])"
    using assms by (rule current_push)
  have c: "call (Ref b) ProducePartC ?s2 =
      (Inr Undefined, store p (Product1 (ps @ [''PartA1'', ''PartB1'', ''PartC1''])) s)"
    using call_produce [OF cur2, of PartC] by (simp add: store_store)
  show ?thesis
    by (simp add: and_then_def a b c)
qed

lemma getProduct_after_store:
  assumes "current s b = Some (p, ps)"
  shows "case call (Ref b) GetProduct (store p (Product1 qs) s) of (r, s') \<Rightarrow>
           r = Inr (Ref p) \<and> lookup s' p = Some (Product1 qs)"
proof -
  let ?s1 = "store p (Product1 qs) s"
  have cur1: "current ?s1 b = Some (p, qs)"
    using assms by (rule current_push)
  note d = currentD [OF cur1]
  have "b \<noteq> p" using d by auto
  moreover have "p < length (heap ?s1)" using d by (simp add: lookup_less)
  ultimately show ?thesis
    using d by (simp add: getProduct_effect lookup_store alloc_def lookup_extend)
qed

text \<open>
  Claim C2. \<^verbatim>\<open>buildFullFeaturedProduct()\<close> is the three calls \<^verbatim>\<open>producePartA()\<close>,
  \<^verbatim>\<open>producePartB()\<close>, \<^verbatim>\<open>producePartC()\<close> on the builder the director holds, in
  that order and once each, whatever that builder is. When it is a \<open>ConcreteBuilder1\<close>
  working on a product with parts \<open>ps\<close>, the recipe appends the three identifiers and
  changes nothing else, and the \<^verbatim>\<open>getProduct()\<close> that follows returns that product:
  on a fresh builder (\<open>ps = []\<close>) its parts are exactly the three identifiers.
\<close>

theorem full_recipe_three_steps:
  assumes "lookup s d = Some (Director bv)"
  shows "buildFullFeaturedProduct d s =
           and_then (call bv ProducePartA) (and_then (call bv ProducePartB) (call bv ProducePartC)) s \<and>
         (\<forall>b p ps. bv = Ref b \<and> current s b = Some (p, ps) \<longrightarrow>
            buildFullFeaturedProduct d s =
              (Inr Undefined, store p (Product1 (ps @ [''PartA1'', ''PartB1'', ''PartC1''])) s) \<and>
            (case call (Ref b) GetProduct (snd (buildFullFeaturedProduct d s)) of (r, s') \<Rightarrow>
               r = Inr (Ref p) \<and> lookup s' p = Some (Product1 (ps @ [''PartA1'', ''PartB1'', ''PartC1'']))))"
proof (intro conjI allI impI)
  show three: "buildFullFeaturedProduct d s =
      and_then (call bv ProducePartA) (and_then (call bv ProducePartB) (call bv ProducePartC)) s"
    using assms by (rule full_is_three_calls)
  fix b p ps
  assume h: "bv = Ref b \<and> current s b = Some (p, ps)"
  then show eff: "buildFullFeaturedProduct d s =
      (Inr Undefined, store p (Product1 (ps @ [''PartA1'', ''PartB1'', ''PartC1''])) s)"
    using three three_calls_effect [of s b p ps] by simp
  show "case call (Ref b) GetProduct (snd (buildFullFeaturedProduct d s)) of (r, s') \<Rightarrow>
      r = Inr (Ref p) \<and> lookup s' p = Some (Product1 (ps @ [''PartA1'', ''PartB1'', ''PartC1'']))"
    using h getProduct_after_store [of s b p ps] by (simp add: eff)
qed

text \<open>
  Claim C3. \<^verbatim>\<open>buildMinimalViableProduct()\<close> is one call of \<^verbatim>\<open>producePartA()\<close> on the
  builder the director holds. On a \<open>ConcreteBuilder1\<close> working on a product with parts
  \<open>ps\<close> it appends \<^verbatim>\<open>'PartA1'\<close> and changes nothing else, and the
  \<^verbatim>\<open>getProduct()\<close> that follows returns that product: on a fresh builder its parts
  are exactly \<^verbatim>\<open>['PartA1']\<close>.
\<close>

theorem minimal_recipe_one_step:
  assumes "lookup s d = Some (Director bv)"
  shows "buildMinimalViableProduct d s = call bv ProducePartA s \<and>
         (\<forall>b p ps. bv = Ref b \<and> current s b = Some (p, ps) \<longrightarrow>
            buildMinimalViableProduct d s = (Inr Undefined, store p (Product1 (ps @ [''PartA1''])) s) \<and>
            (case call (Ref b) GetProduct (snd (buildMinimalViableProduct d s)) of (r, s') \<Rightarrow>
               r = Inr (Ref p) \<and> lookup s' p = Some (Product1 (ps @ [''PartA1'']))))"
proof (intro conjI allI impI)
  show one: "buildMinimalViableProduct d s = call bv ProducePartA s"
    using assms by (simp add: buildMinimalViableProduct_def builder_call_held)
  fix b p ps
  assume h: "bv = Ref b \<and> current s b = Some (p, ps)"
  then show eff: "buildMinimalViableProduct d s = (Inr Undefined, store p (Product1 (ps @ [''PartA1''])) s)"
    using one call_produce [of s b p ps PartA] by simp
  show "case call (Ref b) GetProduct (snd (buildMinimalViableProduct d s)) of (r, s') \<Rightarrow>
      r = Inr (Ref p) \<and> lookup s' p = Some (Product1 (ps @ [''PartA1'']))"
    using h getProduct_after_store [of s b p ps] by (simp add: eff)
qed

text \<open>
  Claim C6. A director whose \<^verbatim>\<open>builder\<close> was never set holds \<^verbatim>\<open>undefined\<close>, as a
  new director does. Each recipe then throws the \<^verbatim>\<open>TypeError\<close> of reading a property
  of \<^verbatim>\<open>undefined\<close>, at its first statement, and leaves the state as it was: so does
  every later invocation, and a client running several recipes stops at the first.
\<close>

theorem recipe_without_builder_throws:
  assumes "lookup s d = Some (Director Undefined)"
  shows "buildMinimalViableProduct d s = (Inl (TypeError UndefinedRead), s) \<and>
         buildFullFeaturedProduct d s = (Inl (TypeError UndefinedRead), s) \<and>
         (\<forall>r rs. recipes d (r # rs) s = (Inl (TypeError UndefinedRead), s)) \<and>
         lookup (snd (new_Director s0)) (fst (new_Director s0)) = Some (Director Undefined)"
proof -
  have one: "run_recipe d r s = (Inl (TypeError UndefinedRead), s)" for r
    using assms
    by (cases r)
      (simp_all add: buildMinimalViableProduct_def buildFullFeaturedProduct_def builder_call_def
        call_def and_then_def)
  have new: "lookup (snd (new_Director s0)) (fst (new_Director s0)) = Some (Director Undefined)"
    by (simp add: new_Director_def alloc_def lookup_def)
  show ?thesis
    using one [of Minimal] one [of Full] new by (simp add: one)
qed

section \<open>Calls on a builder\<close>

lemma lookup_reset_store:
  "lookup (store b ob (snd (alloc ob' s))) a =
     (if a = b \<and> b \<le> length (heap s) then Some ob
      else if a = length (heap s) then Some ob' else lookup s a)"
  by (auto simp: lookup_store alloc_def lookup_extend)

lemma call_not_declared:
  "lookup s b = Some (ConcreteBuilder1 pv) \<Longrightarrow> call (Ref b) ListParts s = (Inl (TypeError NotAFunction), s)"
  by (simp add: call_def find_method_def)

lemma call_inherited:
  assumes "lookup s b = Some (ConcreteBuilder1 pv)"
  shows "call (Ref b) BuildPartA s = (Inl (Error ''buildPartA() method must be implemented''), s)"
    and "call (Ref b) BuildPartB s = (Inl (Error ''buildPartB() method must be implemented''), s)"
    and "call (Ref b) BuildPartC s = (Inl (Error ''buildPartC() method must be implemented''), s)"
  using assms by (simp_all add: call_def find_method_def buildPartA_def buildPartB_def buildPartC_def)

lemma reset_effect:
  "lookup s b = Some (ConcreteBuilder1 pv) \<Longrightarrow>
   call (Ref b) Reset s =
     (Inr Undefined, store b (ConcreteBuilder1 (Ref (length (heap s)))) (snd (alloc (Product1 []) s)))"
  by (simp add: call_def find_method_def reset_def new_Product1_def alloc_def)

lemma current_renewed:
  assumes "lookup s b = Some (ConcreteBuilder1 pv)"
  shows "current (store b (ConcreteBuilder1 (Ref (length (heap s)))) (snd (alloc (Product1 []) s))) b
    = Some (length (heap s), [])"
  using assms lookup_less [OF assms] by (auto simp: current_def lookup_reset_store)

text \<open>What one call on a builder does to the builder's own product, whatever the method.\<close>

lemma call_builder_cases:
  assumes cur: "current s b = Some (q, qs)"
  obtains (throws) e where "call (Ref b) m s = (Inl e, s)" "own_method CConcreteBuilder1 m = None"
  | (pushes) c where "m = produce c" "call (Ref b) m s = (Inr Undefined, store q (Product1 (qs @ [part_name c])) s)"
  | (renews) v where "m = Reset \<or> m = GetProduct" "v = Undefined \<or> v = Ref q"
      "call (Ref b) m s = (Inr v, store b (ConcreteBuilder1 (Ref (length (heap s)))) (snd (alloc (Product1 []) s)))"
proof -
  note d = currentD [OF cur]
  show ?thesis
  proof (cases m)
    case ListParts
    then show ?thesis using d throws by (simp add: call_not_declared)
  next
    case BuildPartA
    then show ?thesis using d throws by (simp add: call_inherited)
  next
    case BuildPartB
    then show ?thesis using d throws by (simp add: call_inherited)
  next
    case BuildPartC
    then show ?thesis using d throws by (simp add: call_inherited)
  next
    case Reset
    then show ?thesis using d renews [of Undefined] by (simp add: reset_effect)
  next
    case ProducePartA
    then show ?thesis using pushes [of PartA] call_produce [OF cur, of PartA] by simp
  next
    case ProducePartB
    then show ?thesis using pushes [of PartB] call_produce [OF cur, of PartB] by simp
  next
    case ProducePartC
    then show ?thesis using pushes [of PartC] call_produce [OF cur, of PartC] by simp
  next
    case GetProduct
    then show ?thesis using d renews [of "Ref q"] by (simp add: getProduct_effect)
  qed
qed

lemma handed_out_call:
  assumes "handed_out b p ps s"
  shows "handed_out b p ps (snd (call (Ref b) m s)) \<and> fst (call (Ref b) m s) \<noteq> Inr (Ref p)"
proof -
  from assms obtain q qs where cur: "current s b = Some (q, qs)" and ne: "q \<noteq> p"
    and held: "lookup s p = Some (Product1 ps)"
    by (auto simp: handed_out_def)
  note d = currentD [OF cur]
  have lp: "p < length (heap s)" using held by (rule lookup_less)
  have bp: "b \<noteq> p" using d held by auto
  from cur show ?thesis
  proof (cases rule: call_builder_cases [where m = m])
    case (throws e)
    then show ?thesis using assms by simp
  next
    case (pushes c)
    have "current (store q (Product1 (qs @ [part_name c])) s) b = Some (q, qs @ [part_name c])"
      using cur by (rule current_push)
    then show ?thesis using pushes ne held by (auto simp: handed_out_def lookup_store)
  next
    case (renews v)
    have "current (store b (ConcreteBuilder1 (Ref (length (heap s)))) (snd (alloc (Product1 []) s))) b
      = Some (length (heap s), [])"
      using d by (simp add: current_renewed)
    then show ?thesis using renews ne held lp bp by (auto simp: handed_out_def lookup_reset_store)
  qed
qed

lemma handed_out_outcomes:
  "handed_out b p ps s \<Longrightarrow>
   Inr (Ref p) \<notin> set (fst (outcomes (Ref b) ms s)) \<and> handed_out b p ps (snd (outcomes (Ref b) ms s))"
proof (induction ms arbitrary: s)
  case Nil
  then show ?case by simp
next
  case (Cons m ms)
  from handed_out_call [OF Cons.prems, of m] Cons.IH [of "snd (call (Ref b) m s)"]
  show ?case by (auto split: prod.splits)
qed

text \<open>
  Claim C4. From any state in which builder \<open>b\<close> is working on a product \<open>p\<close>:
  \<^verbatim>\<open>getProduct()\<close> returns \<open>p\<close>; a second \<^verbatim>\<open>getProduct()\<close> right after it returns
  another object, whose parts are empty; and whatever calls are made on the builder after
  the first retrieval, none of them returns \<open>p\<close>, the builder never holds \<open>p\<close> again,
  and the parts of \<open>p\<close> stay as they were handed out.
\<close>

theorem retrieved_product_never_returns:
  assumes "current s b = Some (p, ps)"
  shows "case call (Ref b) GetProduct s of (r1, s1) \<Rightarrow>
           r1 = Inr (Ref p) \<and>
           (case call (Ref b) GetProduct s1 of (r2, s2) \<Rightarrow>
              \<exists>p2. r2 = Inr (Ref p2) \<and> p2 \<noteq> p \<and> lookup s2 p2 = Some (Product1 [])) \<and>
           (\<forall>ms. case outcomes (Ref b) ms s1 of (rs, s') \<Rightarrow>
              Inr (Ref p) \<notin> set rs \<and> lookup s' b \<noteq> Some (ConcreteBuilder1 (Ref p)) \<and>
              lookup s' p = Some (Product1 ps))"
proof -
  note d = currentD [OF assms]
  let ?n = "length (heap s)"
  let ?s1 = "store b (ConcreteBuilder1 (Ref ?n)) (snd (alloc (Product1 []) s))"
  have first: "call (Ref b) GetProduct s = (Inr (Ref p), ?s1)"
    using d by (simp add: getProduct_effect)
  have lp: "p < ?n" using d by (simp add: lookup_less)
  have bp: "b \<noteq> p" using d by auto
  have cur1: "current ?s1 b = Some (?n, [])"
    using d by (simp add: current_renewed)
  have ho: "handed_out b p ps ?s1"
    using cur1 lp bp d by (auto simp: handed_out_def lookup_reset_store)
  note d1 = currentD [OF cur1]
  let ?s2 = "store b (ConcreteBuilder1 (Ref (length (heap ?s1)))) (snd (alloc (Product1 []) ?s1))"
  have second: "call (Ref b) GetProduct ?s1 = (Inr (Ref ?n), ?s2)"
    using d1 by (simp add: getProduct_effect)
  have "b \<noteq> ?n" using d1 by auto
  moreover have "?n < length (heap ?s1)" using d1 by (simp add: lookup_less)
  ultimately have empty2: "lookup ?s2 ?n = Some (Product1 [])"
    using d1 by (simp add: lookup_reset_store)
  have later: "\<forall>ms. case outcomes (Ref b) ms ?s1 of (rs, s') \<Rightarrow>
      Inr (Ref p) \<notin> set rs \<and> lookup s' b \<noteq> Some (ConcreteBuilder1 (Ref p)) \<and>
      lookup s' p = Some (Product1 ps)"
  proof
    fix ms
    show "case outcomes (Ref b) ms ?s1 of (rs, s') \<Rightarrow>
      Inr (Ref p) \<notin> set rs \<and> lookup s' b \<noteq> Some (ConcreteBuilder1 (Ref p)) \<and>
      lookup s' p = Some (Product1 ps)"
      using handed_out_outcomes [OF ho, of ms]
      by (auto simp: handed_out_def dest: currentD split: prod.splits)
  qed
  have twice: "case call (Ref b) GetProduct ?s1 of (r2, s2) \<Rightarrow>
      \<exists>p2. r2 = Inr (Ref p2) \<and> p2 \<noteq> p \<and> lookup s2 p2 = Some (Product1 [])"
    using lp empty2 by (simp add: second)
  show ?thesis
    unfolding first using twice later by simp
qed

lemma current_call:
  assumes "current s b = Some (q, qs)"
  shows "(\<exists>q' qs'. current (snd (call (Ref b) m s)) b = Some (q', qs')) \<and>
         (own_method CConcreteBuilder1 m \<noteq> None \<longrightarrow> \<not> isl (fst (call (Ref b) m s)))"
  using assms
proof (cases rule: call_builder_cases [where m = m])
  case (throws e)
  then show ?thesis using assms by simp
next
  case (pushes c)
  then show ?thesis using current_push [OF assms] by simp
next
  case (renews v)
  then show ?thesis using current_renewed currentD [OF assms] by auto
qed

lemma current_outcomes:
  "current s b = Some (q, qs) \<Longrightarrow>
   (\<exists>q' qs'. current (snd (outcomes (Ref b) ms s)) b = Some (q', qs')) \<and>
   list_all2 (\<lambda>m r. own_method CConcreteBuilder1 m \<noteq> None \<longrightarrow> \<not> isl r) ms (fst (outcomes (Ref b) ms s))"
proof (induction ms arbitrary: s q qs)
  case Nil
  then show ?case by simp
next
  case (Cons m ms)
  from current_call [OF Cons.prems, of m]
  obtain q' qs' where cur': "current (snd (call (Ref b) m s)) b = Some (q', qs')"
    and ok: "own_method CConcreteBuilder1 m \<noteq> None \<longrightarrow> \<not> isl (fst (call (Ref b) m s))"
    by blast
  from Cons.IH [OF cur'] ok show ?case
    by (auto split: prod.splits)
qed

text \<open>
  Claim C9. The constructor leaves the builder with an empty \<open>Product1\<close>. From there,
  whatever sequence of calls is made on the builder (with no \<^verbatim>\<open>reset()\<close> first, and
  also past calls that throw), the builder's \<^verbatim>\<open>product\<close> refers to a \<open>Product1\<close>
  after every one of them, and every call of a method that \<open>ConcreteBuilder1\<close> declares
  (\<^verbatim>\<open>reset\<close>, \<^verbatim>\<open>producePartA/B/C\<close>, \<^verbatim>\<open>getProduct\<close>) returns without a throw.
\<close>

theorem builder_always_has_product:
  "case new_ConcreteBuilder1 s of (b, s0) \<Rightarrow>
     (\<exists>p. current s0 b = Some (p, [])) \<and>
     (\<forall>ms. case outcomes (Ref b) ms s0 of (rs, s') \<Rightarrow>
        (\<exists>p ps. current s' b = Some (p, ps)) \<and>
        list_all2 (\<lambda>m r. own_method CConcreteBuilder1 m \<noteq> None \<longrightarrow> \<not> isl r) ms rs)"
proof -
  obtain b s0 where new: "new_ConcreteBuilder1 s = (b, s0)"
    by (cases "new_ConcreteBuilder1 s")
  have cur: "current s0 b = Some (Suc (length (heap s)), [])"
    using current_new [of s] new by simp
  have "case outcomes (Ref b) ms s0 of (rs, s') \<Rightarrow>
        (\<exists>p ps. current s' b = Some (p, ps)) \<and>
        list_all2 (\<lambda>m r. own_method CConcreteBuilder1 m \<noteq> None \<longrightarrow> \<not> isl r) ms rs" for ms
    using current_outcomes [OF cur, of ms] by (cases "outcomes (Ref b) ms s0") auto
  then show ?thesis
    using cur by (simp add: new)
qed

text \<open>
  Claim C10. \<open>ConcreteBuilder1\<close> declares none of \<^verbatim>\<open>buildPartA\<close>, \<^verbatim>\<open>buildPartB\<close>,
  \<^verbatim>\<open>buildPartC\<close>, so on any of its instances, in every state, each of them resolves to
  the method of \<open>Builder\<close> and throws its \<^verbatim>\<open>must be implemented\<close> error, leaving the
  state as it was; the same instance runs \<^verbatim>\<open>producePartA/B/C\<close> without a throw.
\<close>

theorem inherited_buildPart_throws:
  assumes "lookup s b = Some (ConcreteBuilder1 pv)"
  shows "own_method CConcreteBuilder1 BuildPartA = None \<and>
         own_method CConcreteBuilder1 BuildPartB = None \<and>
         own_method CConcreteBuilder1 BuildPartC = None \<and>
         call (Ref b) BuildPartA s = (Inl (Error ''buildPartA() method must be implemented''), s) \<and>
         call (Ref b) BuildPartB s = (Inl (Error ''buildPartB() method must be implemented''), s) \<and>
         call (Ref b) BuildPartC s = (Inl (Error ''buildPartC() method must be implemented''), s) \<and>
         (\<forall>p ps c. pv = Ref p \<and> lookup s p = Some (Product1 ps) \<longrightarrow>
            fst (call (Ref b) (produce c) s) = Inr Undefined)"
proof -
  have "fst (call (Ref b) (produce c) s) = Inr Undefined"
    if "pv = Ref p \<and> lookup s p = Some (Product1 ps)" for p ps c
  proof -
    have "current s b = Some (p, ps)" using assms that by (simp add: currentI)
    then show ?thesis by (simp add: call_produce)
  qed
  then show ?thesis
    using call_inherited [OF assms] by auto
qed

text \<open>
  Claim C5. \<open>Builder\<close> declares \<^verbatim>\<open>buildPartA/B/C\<close> and not \<^verbatim>\<open>producePartA/B/C\<close>, the
  names that \<open>ConcreteBuilder1\<close> and the \<open>Director\<close> use. On a bare
  \<^verbatim>\<open>new Builder()\<close> the call \<^verbatim>\<open>producePartA()\<close> (and B, and C) therefore throws the
  engine's \<^verbatim>\<open>TypeError\<close> for calling what is not a function, and not the
  \<^verbatim>\<open>must be implemented\<close> error, which only \<^verbatim>\<open>buildPartA/B/C\<close> throw.
\<close>

theorem bare_builder_produce_not_a_function:
  "case new_Builder s of (a, s') \<Rightarrow>
     call (Ref a) ProducePartA s' = (Inl (TypeError NotAFunction), s') \<and>
     call (Ref a) ProducePartB s' = (Inl (TypeError NotAFunction), s') \<and>
     call (Ref a) ProducePartC s' = (Inl (TypeError NotAFunction), s') \<and>
     call (Ref a) BuildPartA s' = (Inl (Error ''buildPartA() method must be implemented''), s')"
  by (simp add: new_Builder_def alloc_def call_def lookup_def find_method_def buildPartA_def)

section \<open>Listing the parts\<close>

lemma join_loop_later: "0 < k \<Longrightarrow> join_loop sep xs k r = r @ concat (map ((@) sep) xs)"
  by (induction xs arbitrary: k r) simp_all

lemma joined_Cons: "joined sep (x # xs) = x @ concat (map ((@) sep) xs)"
  by (induction xs arbitrary: x) simp_all

lemma join_joined: "join xs sep = joined sep xs"
proof (cases xs)
  case Nil
  then show ?thesis by (simp add: join_def)
next
  case (Cons x ys)
  then show ?thesis by (simp add: join_def join_loop_later joined_Cons)
qed

text \<open>
  Claim C8, as the code has it. \<^verbatim>\<open>listParts()\<close> is \<^verbatim>\<open>console.log\<close> of one line: it
  returns nothing, and the state after it is not the state before it.
\<close>

theorem listParts_changes_state_counterexample:
  "lookup \<lparr>heap = [Product1 [''PartA1'']], console = []\<rparr> 0 = Some (Product1 [''PartA1'']) \<and>
   fst (call (Ref 0) ListParts \<lparr>heap = [Product1 [''PartA1'']], console = []\<rparr>) = Inr Undefined \<and>
   snd (call (Ref 0) ListParts \<lparr>heap = [Product1 [''PartA1'']], console = []\<rparr>) \<noteq>
     \<lparr>heap = [Product1 [''PartA1'']], console = []\<rparr> \<and>
   console (snd (call (Ref 0) ListParts \<lparr>heap = [Product1 [''PartA1'']], console = []\<rparr>)) =
     [''Product parts: PartA1'' @ [CHR 0x0A]]"
  by (simp add: call_def lookup_def find_method_def listParts_def join_def)

text \<open>
  Claim C8, amended. \<^verbatim>\<open>listParts()\<close> on a product has one effect: it appends one line
  to the console, \<^verbatim>\<open>Product parts: \<close> followed by the parts in insertion order with
  \<^verbatim>\<open>, \<close> between neighbours and a newline at the end. It returns \<^verbatim>\<open>undefined\<close>. The
  store of objects is unchanged: every address holds what it held, so the product keeps
  its parts.
\<close>

theorem listParts_logs_one_line:
  assumes "lookup s p = Some (Product1 ps)"
  shows "call (Ref p) ListParts s =
           (Inr Undefined, s\<lparr>console := console s @ [''Product parts: '' @ joined '', '' ps @ [CHR 0x0A]]\<rparr>) \<and>
         console (snd (call (Ref p) ListParts s)) =
           console s @ [''Product parts: '' @ joined '', '' ps @ [CHR 0x0A]] \<and>
         heap (snd (call (Ref p) ListParts s)) = heap s \<and>
         (\<forall>a. lookup (snd (call (Ref p) ListParts s)) a = lookup s a) \<and>
         lookup (snd (call (Ref p) ListParts s)) p = Some (Product1 ps)"
  using assms by (simp add: call_def find_method_def listParts_def join_joined lookup_console)

section \<open>Recipes after a change of builder\<close>

lemma run_recipe_effect:
  assumes held: "lookup s d = Some (Director (Ref b))" and cur: "current s b = Some (p, ps)"
  shows "run_recipe d r s = (Inr Undefined, store p (Product1 (ps @ recipe_parts r)) s)"
proof (cases r)
  case Minimal
  then show ?thesis
    using call_produce [OF cur, of PartA]
    by (simp add: buildMinimalViableProduct_def builder_call_held [OF held])
next
  case Full
  then show ?thesis
    by (simp add: full_is_three_calls [OF held] three_calls_effect [OF cur])
qed

lemma recipes_effect:
  assumes "lookup s d = Some (Director (Ref b))" and "current s b = Some (p, ps)"
  shows "recipes d rs s = (Inr Undefined, store p (Product1 (ps @ concat (map recipe_parts rs))) s)"
  using assms
proof (induction rs arbitrary: s ps)
  case Nil
  then show ?case by (simp add: current_store_same)
next
  case (Cons r rs)
  let ?s1 = "store p (Product1 (ps @ recipe_parts r)) s"
  have "p \<noteq> d" using Cons.prems by (auto dest: currentD)
  then have held1: "lookup ?s1 d = Some (Director (Ref b))"
    using Cons.prems(1) by (simp add: lookup_store)
  have cur1: "current ?s1 b = Some (p, ps @ recipe_parts r)"
    using Cons.prems(2) by (rule current_push)
  show ?case
    using Cons.IH [OF held1 cur1]
    by (simp add: run_recipe_effect [OF Cons.prems] store_store)
qed

lemma setBuilder_effect:
  "lookup s d = Some (Director v0) \<Longrightarrow> setBuilder d v s = (Inr Undefined, store d (Director v) s)"
  by (simp add: setBuilder_def)

lemma current_other_store:
  assumes "current s b = Some (p, ps)" and "a \<noteq> b" and "a \<noteq> p"
  shows "current (store a ob s) b = Some (p, ps)"
  using assms by (auto simp: current_def lookup_store split: option.splits obj.splits val.splits)

lemma unshared_products:
  assumes "unshared s" and "b1 \<noteq> b2"
    and "current s b1 = Some (p1, ps1)" and "current s b2 = Some (p2, ps2)"
  shows "p1 \<noteq> p2"
proof
  assume "p1 = p2"
  then have "lookup s b1 = Some (ConcreteBuilder1 (Ref p2))" "lookup s b2 = Some (ConcreteBuilder1 (Ref p2))"
    using assms(3,4) by (auto dest: currentD)
  then have "b1 = b2" using assms(1) unfolding unshared_def by blast
  then show False using assms(2) by simp
qed

text \<open>
  Claim C7. In a state the program can reach (no product shared), take two different
  builders \<open>b1\<close> and \<open>b2\<close>, each working on its product, and a director holding
  anything. After \<^verbatim>\<open>setBuilder(b2)\<close>, every sequence of recipe calls runs without a
  throw and changes one object only, the current product of \<open>b2\<close>, which gets the parts
  of the recipes in order; \<open>b1\<close> still works on the same product, with the same parts.
\<close>

theorem swapped_builder_untouched:
  assumes ok: "heap_ok s" and ne: "b1 \<noteq> b2"
    and cur1: "current s b1 = Some (p1, ps1)" and cur2: "current s b2 = Some (p2, ps2)"
    and dir: "lookup s d = Some (Director v0)"
  shows "case setBuilder d (Ref b2) s of (r0, s0) \<Rightarrow>
           r0 = Inr Undefined \<and>
           (\<forall>rs. case recipes d rs s0 of (r, s') \<Rightarrow>
              r = Inr Undefined \<and>
              s' = store p2 (Product1 (ps2 @ concat (map recipe_parts rs))) s0 \<and>
              current s' b2 = Some (p2, ps2 @ concat (map recipe_parts rs)) \<and>
              current s' b1 = Some (p1, ps1))"
proof -
  let ?s0 = "store d (Director (Ref b2)) s"
  have set: "setBuilder d (Ref b2) s = (Inr Undefined, ?s0)"
    using dir by (rule setBuilder_effect)
  have "unshared s" using ok by (simp add: heap_ok_def)
  then have pp: "p1 \<noteq> p2"
    using ne cur1 cur2 by (rule unshared_products)
  have d_other: "d \<noteq> b1" "d \<noteq> p1" "d \<noteq> b2" "d \<noteq> p2"
    using dir currentD [OF cur1] currentD [OF cur2] by auto
  have b1p2: "p2 \<noteq> b1" using currentD [OF cur1] currentD [OF cur2] by auto
  have cur1': "current ?s0 b1 = Some (p1, ps1)"
    using cur1 d_other by (simp add: current_other_store)
  have cur2': "current ?s0 b2 = Some (p2, ps2)"
    using cur2 d_other by (simp add: current_other_store)
  have held: "lookup ?s0 d = Some (Director (Ref b2))"
    using dir by (simp add: lookup_store lookup_less)
  have "case recipes d rs ?s0 of (r, s') \<Rightarrow>
      r = Inr Undefined \<and>
      s' = store p2 (Product1 (ps2 @ concat (map recipe_parts rs))) ?s0 \<and>
      current s' b2 = Some (p2, ps2 @ concat (map recipe_parts rs)) \<and>
      current s' b1 = Some (p1, ps1)" for rs
  proof -
    let ?qs = "ps2 @ concat (map recipe_parts rs)"
    have run: "recipes d rs ?s0 = (Inr Undefined, store p2 (Product1 ?qs) ?s0)"
      using held cur2' by (rule recipes_effect)
    have c2: "current (store p2 (Product1 ?qs) ?s0) b2 = Some (p2, ?qs)"
      using cur2' by (rule current_push)
    have c1: "current (store p2 (Product1 ?qs) ?s0) b1 = Some (p1, ps1)"
      using cur1' b1p2 pp [symmetric] by (rule current_other_store)
    show ?thesis
      by (simp only: run c2 c1 prod.case simp_thms)
  qed
  then show ?thesis
    by (simp add: set)
qed

section \<open>The states the program reaches\<close>

text \<open>The invariant holds at the start and every operation of the program keeps it.\<close>

lemma heap_ok_init: "heap_ok init_state"
  by (simp add: heap_ok_def unshared_def products_allocated_def lookup_def init_state_def)

lemma heap_ok_alloc:
  assumes "heap_ok s" and "\<And>q. ob \<noteq> ConcreteBuilder1 (Ref q)"
  shows "heap_ok (snd (alloc ob s))"
  using assms
  by (auto simp: heap_ok_def unshared_def products_allocated_def alloc_def lookup_extend
      less_Suc_eq split: if_splits)

lemma heap_ok_store_same_class:
  assumes "heap_ok s" and "\<And>q. ob \<noteq> ConcreteBuilder1 (Ref q)"
  shows "heap_ok (store a ob s)"
  using assms
  by (auto simp: heap_ok_def unshared_def products_allocated_def lookup_store length_store
      split: if_splits)

lemma heap_ok_renew:
  assumes "heap_ok s"
  shows "heap_ok (store b (ConcreteBuilder1 (Ref (length (heap s)))) (snd (alloc (Product1 []) s)))"
proof -
  have fresh: "lookup s a \<noteq> Some (ConcreteBuilder1 (Ref (length (heap s))))" for a
    using assms by (auto simp: heap_ok_def products_allocated_def)
  have len: "length (heap (store b (ConcreteBuilder1 (Ref (length (heap s)))) (snd (alloc (Product1 []) s))))
      = Suc (length (heap s))"
    by (simp add: length_store alloc_def)
  show ?thesis
    unfolding heap_ok_def unshared_def products_allocated_def len
    using assms fresh
    by (auto simp: heap_ok_def unshared_def products_allocated_def lookup_reset_store
        less_Suc_eq split: if_splits)
qed

lemma heap_ok_call:
  assumes "heap_ok s"
  shows "heap_ok (snd (call v m s))"
proof (cases v)
  case Undefined
  then show ?thesis using assms by (simp add: call_def)
next
  case (Ref a)
  show ?thesis
  proof (cases "lookup s a")
    case None
    then show ?thesis using assms Ref by (simp add: call_def)
  next
    case (Some ob)
    have console: "heap_ok (s\<lparr>console := c\<rparr>)" for c
      using assms by (simp add: heap_ok_def unshared_def products_allocated_def lookup_console)
    have push: "heap_ok (store p (Product1 qs) s)" for p qs
      using assms by (rule heap_ok_store_same_class) simp
    have renew: "heap_ok (store a (ConcreteBuilder1 (Ref (length (heap s)))) (s\<lparr>heap := heap s @ [Product1 []]\<rparr>))"
      using heap_ok_renew [OF assms, of a] by (simp add: alloc_def)
    show ?thesis using assms Ref Some console push renew
      by (cases ob; cases m)
        (auto simp: call_def find_method_def listParts_def buildPartA_def buildPartB_def
          buildPartC_def reset_def producePartA_def producePartB_def producePartC_def
          push_part_def getProduct_def new_Product1_def alloc_def
          split: option.splits obj.splits val.splits)
  qed
qed

lemma heap_ok_new_ConcreteBuilder1: "heap_ok s \<Longrightarrow> heap_ok (snd (new_ConcreteBuilder1 s))"
proof -
  assume ok: "heap_ok s"
  let ?s1 = "snd (alloc (ConcreteBuilder1 Undefined) s)"
  have ok1: "heap_ok ?s1" using ok by (rule heap_ok_alloc) simp
  have b: "lookup ?s1 (length (heap s)) = Some (ConcreteBuilder1 Undefined)"
    by (simp add: alloc_def lookup_extend)
  have "snd (new_ConcreteBuilder1 s) = snd (call (Ref (length (heap s))) Reset ?s1)"
    using b by (simp add: new_ConcreteBuilder1_def call_def find_method_def alloc_def)
  then show ?thesis using heap_ok_call [OF ok1] by simp
qed

lemma heap_ok_new_Director: "heap_ok s \<Longrightarrow> heap_ok (snd (new_Director s))"
  unfolding new_Director_def by (rule heap_ok_alloc) simp_all

lemma heap_ok_new_Builder: "heap_ok s \<Longrightarrow> heap_ok (snd (new_Builder s))"
  unfolding new_Builder_def by (rule heap_ok_alloc) simp_all

lemma heap_ok_setBuilder: "heap_ok s \<Longrightarrow> heap_ok (snd (setBuilder d v s))"
  by (auto simp: setBuilder_def heap_ok_store_same_class split: option.splits obj.splits)

lemma heap_ok_builder_call: "heap_ok s \<Longrightarrow> heap_ok (snd (builder_call d m s))"
  by (auto simp: builder_call_def heap_ok_call split: option.splits obj.splits)

lemma heap_ok_and_then:
  assumes "heap_ok s" and "\<And>s'. heap_ok s' \<Longrightarrow> heap_ok (snd (f s'))"
    and "\<And>s'. heap_ok s' \<Longrightarrow> heap_ok (snd (g s'))"
  shows "heap_ok (snd (and_then f g s))"
proof (cases "f s")
  case (Pair r s1)
  have "heap_ok s1" using assms(2) [OF assms(1)] Pair by simp
  then show ?thesis using Pair assms(3) [of s1] by (cases r) (simp_all add: and_then_def)
qed

lemma heap_ok_run_recipe: "heap_ok s \<Longrightarrow> heap_ok (snd (run_recipe d r s))"
proof (cases r)
  case Minimal
  assume "heap_ok s"
  then show ?thesis using Minimal by (simp add: buildMinimalViableProduct_def heap_ok_builder_call)
next
  case Full
  assume "heap_ok s"
  then show ?thesis using Full
    by (simp add: buildFullFeaturedProduct_def heap_ok_and_then heap_ok_builder_call)
qed

section \<open>Concrete runs\<close>

text \<open>
  The stores \<open>wired\<close> and \<open>busy\<close> are stores the client reaches, so the invariant
  holds in them. The theorems above are applied there, and in \<open>unwired\<close>.
\<close>

lemmas eval_defs =
  lookup_def current_def store_def alloc_def call_def find_method_def
  reset_def new_Product1_def getProduct_def push_part_def
  producePartA_def producePartB_def producePartC_def
  buildPartA_def buildPartB_def buildPartC_def listParts_def
  setBuilder_def builder_call_def buildMinimalViableProduct_def buildFullFeaturedProduct_def
  and_then_def new_ConcreteBuilder1_def new_Director_def new_Builder_def init_state_def

lemma wired_reached:
  "snd (setBuilder 0 (Ref 1) (snd (new_ConcreteBuilder1 (snd (new_Director init_state))))) = wired"
  by (simp add: wired_def eval_defs)

lemma busy_steps:
  "busy = snd (call (Ref 3) ProducePartC (snd (new_ConcreteBuilder1
            (snd (run_recipe 0 Minimal wired)))))"
  by (simp add: busy_def wired_def eval_defs)

lemma heap_ok_wired: "heap_ok wired"
  unfolding wired_reached [symmetric]
  by (intro heap_ok_setBuilder heap_ok_new_ConcreteBuilder1 heap_ok_new_Director heap_ok_init)

lemma heap_ok_busy: "heap_ok busy"
  unfolding busy_steps
  by (intro heap_ok_call heap_ok_new_ConcreteBuilder1 heap_ok_run_recipe heap_ok_wired)

theorem full_recipe_three_steps_witness:
  "lookup wired 0 = Some (Director (Ref 1)) \<and> current wired 1 = Some (2, []) \<and>
   buildFullFeaturedProduct 0 wired =
     (Inr Undefined,
      \<lparr>heap = [Director (Ref 1), ConcreteBuilder1 (Ref 2), Product1 [''PartA1'', ''PartB1'', ''PartC1'']],
       console = []\<rparr>) \<and>
   fst (call (Ref 1) GetProduct (snd (buildFullFeaturedProduct 0 wired))) = Inr (Ref 2) \<and>
   lookup (snd (call (Ref 1) GetProduct (snd (buildFullFeaturedProduct 0 wired)))) 2 =
     Some (Product1 [''PartA1'', ''PartB1'', ''PartC1''])"
proof -
  have h: "lookup wired 0 = Some (Director (Ref 1))"
    by (simp add: wired_def lookup_def)
  have c: "current wired 1 = Some (2, [])"
    by (simp add: wired_def lookup_def current_def)
  note t = full_recipe_three_steps [OF h, THEN conjunct2, rule_format, where b = 1 and p = 2 and ps = "[]"]
  from t [OF conjI [OF refl c]]
  have "buildFullFeaturedProduct 0 wired =
      (Inr Undefined, store 2 (Product1 ([] @ [''PartA1'', ''PartB1'', ''PartC1''])) wired) \<and>
    (case call (Ref 1) GetProduct (snd (buildFullFeaturedProduct 0 wired)) of (r, s') \<Rightarrow>
       r = Inr (Ref 2) \<and> lookup s' 2 = Some (Product1 ([] @ [''PartA1'', ''PartB1'', ''PartC1''])))"
    .
  then show ?thesis
    using h c by (simp add: store_def wired_def split: prod.splits)
qed

theorem minimal_recipe_one_step_witness:
  "lookup wired 0 = Some (Director (Ref 1)) \<and> current wired 1 = Some (2, []) \<and>
   buildMinimalViableProduct 0 wired =
     (Inr Undefined,
      \<lparr>heap = [Director (Ref 1), ConcreteBuilder1 (Ref 2), Product1 [''PartA1'']], console = []\<rparr>) \<and>
   fst (call (Ref 1) GetProduct (snd (buildMinimalViableProduct 0 wired))) = Inr (Ref 2) \<and>
   lookup (snd (call (Ref 1) GetProduct (snd (buildMinimalViableProduct 0 wired)))) 2 =
     Some (Product1 [''PartA1''])"
proof -
  have h: "lookup wired 0 = Some (Director (Ref 1))"
    by (simp add: wired_def lookup_def)
  have c: "current wired 1 = Some (2, [])"
    by (simp add: wired_def lookup_def current_def)
  note t = minimal_recipe_one_step [OF h, THEN conjunct2, rule_format, where b = 1 and p = 2 and ps = "[]"]
  from t [OF conjI [OF refl c]]
  have "buildMinimalViableProduct 0 wired =
      (Inr Undefined, store 2 (Product1 ([] @ [''PartA1''])) wired) \<and>
    (case call (Ref 1) GetProduct (snd (buildMinimalViableProduct 0 wired)) of (r, s') \<Rightarrow>
       r = Inr (Ref 2) \<and> lookup s' 2 = Some (Product1 ([] @ [''PartA1''])))"
    .
  then show ?thesis
    using h c by (simp add: store_def wired_def split: prod.splits)
qed

theorem recipe_without_builder_throws_witness:
  "lookup unwired 0 = Some (Director Undefined) \<and>
   new_Director init_state = (0, unwired) \<and>
   buildMinimalViableProduct 0 unwired = (Inl (TypeError UndefinedRead), unwired) \<and>
   buildFullFeaturedProduct 0 unwired = (Inl (TypeError UndefinedRead), unwired) \<and>
   recipes 0 [Full, Minimal] unwired = (Inl (TypeError UndefinedRead), unwired)"
proof -
  have h: "lookup unwired 0 = Some (Director Undefined)"
    by (simp add: unwired_def lookup_def)
  have n: "new_Director init_state = (0, unwired)"
    by (simp add: unwired_def new_Director_def alloc_def init_state_def)
  note t = recipe_without_builder_throws [OF h, where ?s0.0 = init_state]
  from t have "recipes 0 [Full, Minimal] unwired = (Inl (TypeError UndefinedRead), unwired)"
    by blast
  then show ?thesis
    using h n t by (simp del: recipes.simps)
qed

theorem retrieved_product_never_returns_witness:
  "current busy 1 = Some (2, [''PartA1'']) \<and>
   fst (call (Ref 1) GetProduct busy) = Inr (Ref 2) \<and>
   fst (call (Ref 1) GetProduct (snd (call (Ref 1) GetProduct busy))) = Inr (Ref 5) \<and>
   lookup (snd (call (Ref 1) GetProduct (snd (call (Ref 1) GetProduct busy)))) 5 = Some (Product1 []) \<and>
   Inr (Ref 2) \<notin> set (fst (outcomes (Ref 1) [ProducePartB, GetProduct, Reset, GetProduct]
                              (snd (call (Ref 1) GetProduct busy)))) \<and>
   lookup (snd (outcomes (Ref 1) [ProducePartB, GetProduct, Reset, GetProduct]
                  (snd (call (Ref 1) GetProduct busy)))) 2 = Some (Product1 [''PartA1''])"
proof -
  have c: "current busy 1 = Some (2, [''PartA1''])"
    by (simp add: busy_def lookup_def current_def)
  have first: "call (Ref 1) GetProduct busy =
      (Inr (Ref 2), \<lparr>heap = [Director (Ref 1), ConcreteBuilder1 (Ref 5), Product1 [''PartA1''],
                  ConcreteBuilder1 (Ref 4), Product1 [''PartC1''], Product1 []], console = []\<rparr>)"
    by (simp add: busy_def eval_defs)
  have second: "fst (call (Ref 1) GetProduct (snd (call (Ref 1) GetProduct busy))) = Inr (Ref 5)"
    unfolding first by (simp add: eval_defs)
  note t = retrieved_product_never_returns [OF c, unfolded case_prod_beta]
  from t have "\<forall>ms. Inr (Ref 2) \<notin> set (fst (outcomes (Ref 1) ms (snd (call (Ref 1) GetProduct busy)))) \<and>
      lookup (snd (outcomes (Ref 1) ms (snd (call (Ref 1) GetProduct busy)))) 2 = Some (Product1 [''PartA1''])"
    by blast
  then have later: "Inr (Ref 2) \<notin> set (fst (outcomes (Ref 1) [ProducePartB, GetProduct, Reset, GetProduct]
        (snd (call (Ref 1) GetProduct busy)))) \<and>
      lookup (snd (outcomes (Ref 1) [ProducePartB, GetProduct, Reset, GetProduct]
        (snd (call (Ref 1) GetProduct busy)))) 2 = Some (Product1 [''PartA1''])"
    by (rule spec)
  from t second have "lookup (snd (call (Ref 1) GetProduct (snd (call (Ref 1) GetProduct busy)))) 5 = Some (Product1 [])"
    by auto
  then show ?thesis
    using c second later first by simp
qed

theorem swapped_builder_untouched_witness:
  "heap_ok busy \<and> (1::nat) \<noteq> 3 \<and>
   current busy 1 = Some (2, [''PartA1'']) \<and> current busy 3 = Some (4, [''PartC1'']) \<and>
   lookup busy 0 = Some (Director (Ref 1)) \<and>
   recipes 0 [Full, Minimal] (snd (setBuilder 0 (Ref 3) busy)) =
     (Inr Undefined,
      \<lparr>heap = [Director (Ref 3), ConcreteBuilder1 (Ref 2), Product1 [''PartA1''],
               ConcreteBuilder1 (Ref 4),
               Product1 [''PartC1'', ''PartA1'', ''PartB1'', ''PartC1'', ''PartA1'']],
       console = []\<rparr>) \<and>
   current (snd (recipes 0 [Full, Minimal] (snd (setBuilder 0 (Ref 3) busy)))) 1 = Some (2, [''PartA1''])"
proof -
  have ne: "(1::nat) \<noteq> 3" by simp
  have c1: "current busy 1 = Some (2, [''PartA1''])"
    by (simp add: busy_def lookup_def current_def)
  have c2: "current busy 3 = Some (4, [''PartC1''])"
    by (simp add: busy_def lookup_def current_def)
  have dir: "lookup busy 0 = Some (Director (Ref 1))"
    by (simp add: busy_def lookup_def)
  have set: "setBuilder 0 (Ref 3) busy =
      (Inr Undefined,
       \<lparr>heap = [Director (Ref 3), ConcreteBuilder1 (Ref 2), Product1 [''PartA1''],
                ConcreteBuilder1 (Ref 4), Product1 [''PartC1'']], console = []\<rparr>)"
    by (simp add: busy_def setBuilder_def lookup_def store_def)
  note t = swapped_builder_untouched [OF heap_ok_busy ne c1 c2 dir, unfolded case_prod_beta]
  from t have "\<forall>rs. fst (recipes 0 rs (snd (setBuilder 0 (Ref 3) busy))) = Inr Undefined \<and>
      snd (recipes 0 rs (snd (setBuilder 0 (Ref 3) busy))) =
        store 4 (Product1 ([''PartC1''] @ concat (map recipe_parts rs))) (snd (setBuilder 0 (Ref 3) busy)) \<and>
      current (snd (recipes 0 rs (snd (setBuilder 0 (Ref 3) busy)))) 3 =
        Some (4, [''PartC1''] @ concat (map recipe_parts rs)) \<and>
      current (snd (recipes 0 rs (snd (setBuilder 0 (Ref 3) busy)))) 1 = Some (2, [''PartA1''])"
    by (rule conjunct2)
  then have "fst (recipes 0 [Full, Minimal] (snd (setBuilder 0 (Ref 3) busy))) = Inr Undefined \<and>
      snd (recipes 0 [Full, Minimal] (snd (setBuilder 0 (Ref 3) busy))) =
        store 4 (Product1 ([''PartC1''] @ concat (map recipe_parts [Full, Minimal])))
          (snd (setBuilder 0 (Ref 3) busy)) \<and>
      current (snd (recipes 0 [Full, Minimal] (snd (setBuilder 0 (Ref 3) busy)))) 3 =
        Some (4, [''PartC1''] @ concat (map recipe_parts [Full, Minimal])) \<and>
      current (snd (recipes 0 [Full, Minimal] (snd (setBuilder 0 (Ref 3) busy)))) 1 = Some (2, [''PartA1''])"
    by (rule spec)
  then show ?thesis
    using heap_ok_busy c1 c2 dir
    by (simp add: prod_eq_iff set store_def current_def lookup_def del: recipes.simps)
qed

theorem listParts_logs_one_line_witness:
  "lookup \<lparr>heap = [Product1 [''PartA1'', ''PartC1'', ''PartA1'']], console = []\<rparr> 0 =
     Some (Product1 [''PartA1'', ''PartC1'', ''PartA1'']) \<and>
   call (Ref 0) ListParts \<lparr>heap = [Product1 [''PartA1'', ''PartC1'', ''PartA1'']], console = []\<rparr> =
     (Inr Undefined,
      \<lparr>heap = [Product1 [''PartA1'', ''PartC1'', ''PartA1'']],
       console = [''Product parts: PartA1, PartC1, PartA1'' @ [CHR 0x0A]]\<rparr>) \<and>
   heap (snd (call (Ref 0) ListParts
          \<lparr>heap = [Product1 [''PartA1'', ''PartC1'', ''PartA1'']], console = []\<rparr>)) =
     [Product1 [''PartA1'', ''PartC1'', ''PartA1'']]"
proof -
  have h: "lookup \<lparr>heap = [Product1 [''PartA1'', ''PartC1'', ''PartA1'']], console = []\<rparr> 0 =
     Some (Product1 [''PartA1'', ''PartC1'', ''PartA1''])"
    by (simp add: lookup_def)
  show ?thesis
    using h listParts_logs_one_line [OF h] by simp
qed

theorem builder_always_has_product_witness:
  "new_ConcreteBuilder1 init_state = (0, \<lparr>heap = [ConcreteBuilder1 (Ref 1), Product1 []], console = []\<rparr>) \<and>
   own_method CConcreteBuilder1 ProducePartC \<noteq> None \<and>
   own_method CConcreteBuilder1 GetProduct \<noteq> None \<and>
   fst (outcomes (Ref 0) [ProducePartC, BuildPartA, GetProduct]
          \<lparr>heap = [ConcreteBuilder1 (Ref 1), Product1 []], console = []\<rparr>) =
     [Inr Undefined, Inl (Error ''buildPartA() method must be implemented''), Inr (Ref 1)] \<and>
   current (snd (outcomes (Ref 0) [ProducePartC, BuildPartA, GetProduct]
          \<lparr>heap = [ConcreteBuilder1 (Ref 1), Product1 []], console = []\<rparr>)) 0 = Some (2, [])"
proof -
  have new: "new_ConcreteBuilder1 init_state =
      (0, \<lparr>heap = [ConcreteBuilder1 (Ref 1), Product1 []], console = []\<rparr>)"
    by (simp add: eval_defs)
  note t = builder_always_has_product [of init_state, unfolded new prod.case, THEN conjunct2,
      THEN spec, of "[ProducePartC, BuildPartA, GetProduct]"]
  show ?thesis
    using new t by (simp add: eval_defs)
qed

theorem inherited_buildPart_throws_witness:
  "lookup busy 1 = Some (ConcreteBuilder1 (Ref 2)) \<and> lookup busy 2 = Some (Product1 [''PartA1'']) \<and>
   call (Ref 1) BuildPartA busy = (Inl (Error ''buildPartA() method must be implemented''), busy) \<and>
   call (Ref 1) BuildPartB busy = (Inl (Error ''buildPartB() method must be implemented''), busy) \<and>
   call (Ref 1) BuildPartC busy = (Inl (Error ''buildPartC() method must be implemented''), busy) \<and>
   fst (call (Ref 1) ProducePartA busy) = Inr Undefined"
proof -
  have h: "lookup busy 1 = Some (ConcreteBuilder1 (Ref 2))"
    by (simp add: busy_def lookup_def)
  have p: "lookup busy 2 = Some (Product1 [''PartA1''])"
    by (simp add: busy_def lookup_def)
  note t = inherited_buildPart_throws [OF h]
  from t have "\<forall>p ps c. Ref 2 = Ref p \<and> lookup busy p = Some (Product1 ps) \<longrightarrow>
      fst (call (Ref 1) (produce c) busy) = Inr Undefined"
    by simp
  then have "fst (call (Ref 1) (produce PartA) busy) = Inr Undefined"
    using p by blast
  then show ?thesis
    using h p t by simp
qed

text \<open>
  The whole script, run from the empty store: it ends without a throw, with these
  objects and these lines on the console.
\<close>

lemma main_runs:
  "main = (Inr Undefined,
     \<lparr>heap = [Director (Ref 1), ConcreteBuilder1 (Ref 5),
              Product1 [''PartA1''],
              Product1 [''PartA1'', ''PartB1'', ''PartC1''],
              Product1 [''PartA1'', ''PartC1''],
              Product1 []],
      console = [''Standard basic product:'',
                 ''Product parts: PartA1'' @ [CHR 0x0A],
                 ''Standard full featured product:'',
                 ''Product parts: PartA1, PartB1, PartC1'' @ [CHR 0x0A],
                 ''Custom product:'',
                 ''Product parts: PartA1, PartC1'' @ [CHR 0x0A],
                 ''Remember that all outputs are different, due to the reset() method is called after each getProduct() call.'']\<rparr>)"
  by (simp add: main_def clientCode_def console_log_def show_product_def bind_result_def
      join_def eval_defs)

end
